theory Spec2Isabelle
  imports Main "HOL-Library.Multiset"
begin

section \<open>The entity store (supabase\_schema.sql)\<close>

text \<open>
  The five tables of the schema.  A column declared \<^verbatim>\<open>NOT NULL\<close> (or
  \<^verbatim>\<open>PRIMARY KEY\<close>) has its value type; every other column is nullable and has an
  option type, \<open>None\<close> being SQL's \<^verbatim>\<open>NULL\<close>.  A row is the row as it reaches the
  table, after the column defaults (\<^verbatim>\<open>gen_random_uuid()\<close>, \<^verbatim>\<open>NOW()\<close>) have been
  filled in.  \<^verbatim>\<open>CHAR(1)\<close> is one character.  A table is the list of its rows in
  physical order.
\<close>

type_synonym uuid = string
type_synonym timestamptz = int

record conversation =
  c_id :: uuid
  c_title :: string
  c_source_file :: "string option"
  c_imported_at :: "timestamptz option"
  c_metadata :: "string option"

record turn =
  t_id :: uuid
  t_conversation_id :: "uuid option"
  t_turn_number :: int
  t_user_prompt :: string
  t_created_at :: "timestamptz option"

record response =
  r_id :: uuid
  r_turn_id :: "uuid option"
  r_model_name :: string
  r_response_text :: string
  r_response_order :: int
  r_created_at :: "timestamptz option"

record response_position =
  rp_id :: uuid
  rp_turn_id :: "uuid option"
  rp_response_id :: "uuid option"
  rp_position :: char
  rp_created_at :: "timestamptz option"

record vote =
  v_id :: uuid
  v_turn_id :: "uuid option"
  v_position :: char
  v_voter_session :: "string option"
  v_voted_at :: "timestamptz option"
  v_notes :: "string option"

record db =
  conversations :: "conversation list"
  turns :: "turn list"
  responses :: "response list"
  response_positions :: "response_position list"
  votes :: "vote list"

subsection \<open>Constraint violations\<close>

text \<open>
  A rejected statement reports the violated constraint.  \<open>sqlstate\<close> is the
  five-character code PostgreSQL attaches to the error; it is the \<^verbatim>\<open>error.code\<close>
  the client inspects.
\<close>

datatype sql_error =
  CheckViolation string
  | UniqueViolation string
  | ForeignKeyViolation string

fun sqlstate :: "sql_error \<Rightarrow> string" where
  "sqlstate (CheckViolation _) = ''23514''"
| "sqlstate (UniqueViolation _) = ''23505''"
| "sqlstate (ForeignKeyViolation _) = ''23503''"

text \<open>\<^verbatim>\<open>CHECK (position IN ('A', 'B', 'C', 'D'))\<close>, on both tables that carry a position.\<close>

definition position_check :: "char \<Rightarrow> bool" where
  "position_check p = (p \<in> set ''ABCD'')"

text \<open>
  \<^verbatim>\<open>UNIQUE (a, b)\<close> over nullable columns: two rows collide only when all the
  columns are non-NULL and equal; a NULL is distinct from everything, itself included.
\<close>

definition unique_conflict :: "'a option \<Rightarrow> 'b option \<Rightarrow> 'a option \<Rightarrow> 'b option \<Rightarrow> bool" where
  "unique_conflict a b a' b' = (a \<noteq> None \<and> b \<noteq> None \<and> a = a' \<and> b = b')"

text \<open>\<^verbatim>\<open>REFERENCES turns(id)\<close>: a NULL reference is accepted, any other must name a row.\<close>

definition references_turn :: "db \<Rightarrow> uuid option \<Rightarrow> bool" where
  "references_turn d ref = (case ref of None \<Rightarrow> True | Some t \<Rightarrow> t \<in> set (map t_id (turns d)))"

definition references_response :: "db \<Rightarrow> uuid option \<Rightarrow> bool" where
  "references_response d ref =
     (case ref of None \<Rightarrow> True | Some r \<Rightarrow> r \<in> set (map r_id (responses d)))"

subsection \<open>The votes table\<close>

text \<open>
  \<^verbatim>\<open>INSERT INTO votes\<close> of one row.  The row constraint (\<^verbatim>\<open>CHECK\<close>) is tested
  first, then the unique indexes (the primary key, then
  \<^verbatim>\<open>UNIQUE(turn_id, voter_session)\<close>, which the migration
  add\_unique\_vote\_constraint.sql declares a second time over the same columns as
  \<^verbatim>\<open>unique_vote_per_session_per_turn\<close>), then the foreign key.  An accepted row is
  appended.
\<close>

definition insert_vote :: "db \<Rightarrow> vote \<Rightarrow> sql_error + db" where
  "insert_vote d v =
     (if \<not> position_check (v_position v) then Inl (CheckViolation ''votes_position_check'')
      else if list_ex (\<lambda>w. v_id w = v_id v) (votes d) then Inl (UniqueViolation ''votes_pkey'')
      else if list_ex (\<lambda>w. unique_conflict (v_turn_id w) (v_voter_session w)
                              (v_turn_id v) (v_voter_session v)) (votes d)
        then Inl (UniqueViolation ''unique_vote_per_session_per_turn'')
      else if \<not> references_turn d (v_turn_id v)
        then Inl (ForeignKeyViolation ''votes_turn_id_fkey'')
      else Inr (d\<lparr>votes := votes d @ [v]\<rparr>))"

text \<open>\<^verbatim>\<open>DELETE FROM votes;\<close> No table references votes, so nothing cascades.\<close>

definition delete_votes :: "db \<Rightarrow> db" where
  "delete_votes d = d\<lparr>votes := []\<rparr>"

subsection \<open>The response\_positions table\<close>

text \<open>
  \<^verbatim>\<open>INSERT INTO response_positions\<close> of one row: the \<^verbatim>\<open>CHECK\<close>, the primary
  key, \<^verbatim>\<open>UNIQUE(turn_id, response_id)\<close>, \<^verbatim>\<open>UNIQUE(turn_id, position)\<close>, the two
  foreign keys.  A statement that inserts several rows inserts them in order and fails
  as a whole at the first row that is rejected.
\<close>

definition insert_response_position :: "db \<Rightarrow> response_position \<Rightarrow> sql_error + db" where
  "insert_response_position d p =
     (if \<not> position_check (rp_position p)
        then Inl (CheckViolation ''response_positions_position_check'')
      else if list_ex (\<lambda>q. rp_id q = rp_id p) (response_positions d)
        then Inl (UniqueViolation ''response_positions_pkey'')
      else if list_ex (\<lambda>q. unique_conflict (rp_turn_id q) (rp_response_id q)
                              (rp_turn_id p) (rp_response_id p)) (response_positions d)
        then Inl (UniqueViolation ''response_positions_turn_id_response_id_key'')
      else if list_ex (\<lambda>q. unique_conflict (rp_turn_id q) (Some (rp_position q))
                              (rp_turn_id p) (Some (rp_position p))) (response_positions d)
        then Inl (UniqueViolation ''response_positions_turn_id_position_key'')
      else if \<not> references_turn d (rp_turn_id p)
        then Inl (ForeignKeyViolation ''response_positions_turn_id_fkey'')
      else if \<not> references_response d (rp_response_id p)
        then Inl (ForeignKeyViolation ''response_positions_response_id_fkey'')
      else Inr (d\<lparr>response_positions := response_positions d @ [p]\<rparr>))"

fun insert_response_positions :: "db \<Rightarrow> response_position list \<Rightarrow> sql_error + db" where
  "insert_response_positions d [] = Inr d"
| "insert_response_positions d (p # ps) =
     (case insert_response_position d p of
        Inl e \<Rightarrow> Inl e
      | Inr d' \<Rightarrow> insert_response_positions d' ps)"

subsection \<open>Statements\<close>

text \<open>
  A statement is atomic: it either takes effect or reports an error and leaves the
  store as it was.  \<open>exec_all\<close> runs statements one after the other, each on the store
  the previous one left, and collects what each reported.
\<close>

datatype stmt = InsertVote vote | DeleteVotes | InsertPositions "response_position list"

fun exec :: "db \<Rightarrow> stmt \<Rightarrow> sql_error option \<times> db" where
  "exec d (InsertVote v) =
     (case insert_vote d v of Inl e \<Rightarrow> (Some e, d) | Inr d' \<Rightarrow> (None, d'))"
| "exec d DeleteVotes = (None, delete_votes d)"
| "exec d (InsertPositions ps) =
     (case insert_response_positions d ps of Inl e \<Rightarrow> (Some e, d) | Inr d' \<Rightarrow> (None, d'))"

fun exec_all :: "db \<Rightarrow> stmt list \<Rightarrow> sql_error option list \<times> db" where
  "exec_all d [] = ([], d)"
| "exec_all d (s # ss) =
     (case exec d s of (e, d') \<Rightarrow> (case exec_all d' ss of (es, d'') \<Rightarrow> (e # es, d'')))"

text \<open>
  The votes one session has on one turn, the responses of a turn, and the position rows
  of a turn.
\<close>

definition votes_for :: "db \<Rightarrow> uuid \<Rightarrow> string \<Rightarrow> vote list" where
  "votes_for d t s = filter (\<lambda>w. v_turn_id w = Some t \<and> v_voter_session w = Some s) (votes d)"

definition responses_of :: "db \<Rightarrow> uuid \<Rightarrow> response list" where
  "responses_of d t = filter (\<lambda>r. r_turn_id r = Some t) (responses d)"

definition positions_of :: "db \<Rightarrow> uuid \<Rightarrow> response_position list" where
  "positions_of d t = filter (\<lambda>p. rp_turn_id p = Some t) (response_positions d)"

text \<open>Two stores that differ at most in the model names of their responses.\<close>

definition without_model_names :: "db \<Rightarrow> db" where
  "without_model_names d = d\<lparr>responses := map (\<lambda>r. r\<lparr>r_model_name := []\<rparr>) (responses d)\<rparr>"

subsection \<open>The reset scripts (reset\_votes.sql and the test-data cleanup script)\<close>

record reset_counts =
  conversations_count :: nat
  turns_count :: nat
  responses_count :: nat
  votes_count :: nat

text \<open>reset\_votes.sql: the delete, then the verification query.\<close>

definition reset_votes :: "db \<Rightarrow> db \<times> reset_counts" where
  "reset_votes d =
     (let d' = delete_votes d in
      (d', \<lparr>conversations_count = length (conversations d'), turns_count = length (turns d'),
            responses_count = length (responses d'), votes_count = length (votes d')\<rparr>))"

record cleanup_before =
  total_votes :: nat
  unique_sessions :: nat
  before_conversations :: nat
  before_turns :: nat
  before_responses :: nat

record cleanup_after =
  after_total_votes :: nat
  conversations_kept :: nat
  turns_kept :: nat
  responses_kept :: nat

text \<open>
  The cleanup script: the counts before (\<^verbatim>\<open>COUNT(DISTINCT voter_session)\<close> skips
  NULLs), the delete, the counts after.  Its sample listing of the ten latest votes
  reads the store and changes nothing; it is not part of the result here.
\<close>

definition cleanup_test_data :: "db \<Rightarrow> cleanup_before \<times> db \<times> cleanup_after" where
  "cleanup_test_data d =
     (let pre = \<lparr>total_votes = length (votes d),
                     unique_sessions =
                       length (remdups (filter (\<lambda>s. s \<noteq> None) (map v_voter_session (votes d)))),
                     before_conversations = length (conversations d),
                     before_turns = length (turns d),
                     before_responses = length (responses d)\<rparr>;
          d' = delete_votes d
      in (pre, d',
          \<lparr>after_total_votes = length (votes d'), conversations_kept = length (conversations d'),
           turns_kept = length (turns d'), responses_kept = length (responses d')\<rparr>))"

subsection \<open>The views\<close>

text \<open>
  Both views end in \<^verbatim>\<open>ORDER BY c.title, t.turn_number, rp.position\<close>.  How two
  texts compare is the database's collation, which the schema does not fix: it is the
  parameter \<open>lt\<close> ("sorts strictly before").  \<open>order_by\<close> is a stable insertion sort:
  rows the \<^verbatim>\<open>ORDER BY\<close> leaves tied, whose order SQL does not fix, stay in the order
  the grouping produced them in.
\<close>

type_synonym collation = "string \<Rightarrow> string \<Rightarrow> bool"

fun insert_by :: "('a \<Rightarrow> 'a \<Rightarrow> bool) \<Rightarrow> 'a \<Rightarrow> 'a list \<Rightarrow> 'a list" where
  "insert_by precedes x [] = [x]"
| "insert_by precedes x (y # ys) =
     (if precedes x y then x # y # ys else y # insert_by precedes x ys)"

definition order_by :: "('a \<Rightarrow> 'a \<Rightarrow> bool) \<Rightarrow> 'a list \<Rightarrow> 'a list" where
  "order_by precedes xs = fold (insert_by precedes) xs []"

text \<open>
  \<^verbatim>\<open>LEFT JOIN votes v ON t.id = v.turn_id AND rp.position = v.position\<close> followed by
  \<^verbatim>\<open>COUNT(v.id)\<close>: a joined row with no matching vote is kept once with a NULL
  \<open>v.id\<close>, which the count skips, so each joined row adds the number of its matching
  votes.
\<close>

definition matching_votes :: "db \<Rightarrow> uuid \<Rightarrow> char \<Rightarrow> nat" where
  "matching_votes d t p = length (filter (\<lambda>v. v_turn_id v = Some t \<and> v_position v = p) (votes d))"

text \<open>\<^verbatim>\<open>GROUP BY\<close> over the key of each joined row, summing what the rows of a group add.\<close>

definition group_count :: "('k \<times> nat) list \<Rightarrow> ('k \<times> nat) list" where
  "group_count rows =
     map (\<lambda>k. (k, sum_list (map snd (filter (\<lambda>row. fst row = k) rows)))) (remdups (map fst rows))"

record vote_result =
  vr_conversation_title :: string
  vr_turn_number :: int
  vr_user_prompt :: string
  vr_model_name :: string
  vr_position :: char
  vr_vote_count :: nat
  vr_response_text :: string

text \<open>
  \<^verbatim>\<open>vote_results\<close>: conversations, turns of the conversation, responses of the turn,
  positions of the response, grouped by
  \<^verbatim>\<open>c.id, c.title, t.turn_number, t.user_prompt, r.model_name, rp.position, r.response_text\<close>.
\<close>

definition vote_results_joined ::
  "db \<Rightarrow> ((uuid \<times> string \<times> int \<times> string \<times> string \<times> char \<times> string) \<times> nat) list" where
  "vote_results_joined d =
     [((c_id c, c_title c, t_turn_number t, t_user_prompt t, r_model_name r, rp_position rp,
        r_response_text r), matching_votes d (t_id t) (rp_position rp)).
        c \<leftarrow> conversations d,
        t \<leftarrow> turns d, t_conversation_id t = Some (c_id c),
        r \<leftarrow> responses d, r_turn_id r = Some (t_id t),
        rp \<leftarrow> response_positions d, rp_response_id rp = Some (r_id r)]"

definition vote_result_before :: "collation \<Rightarrow> vote_result \<Rightarrow> vote_result \<Rightarrow> bool" where
  "vote_result_before lt a b =
     (lt (vr_conversation_title a) (vr_conversation_title b) \<or>
      (vr_conversation_title a = vr_conversation_title b \<and>
       (vr_turn_number a < vr_turn_number b \<or>
        (vr_turn_number a = vr_turn_number b \<and> lt [vr_position a] [vr_position b]))))"

definition vote_results :: "collation \<Rightarrow> db \<Rightarrow> vote_result list" where
  "vote_results lt d =
     order_by (vote_result_before lt)
       (map (\<lambda>((cid, title, num, prompt, model, pos, txt), n).
               \<lparr>vr_conversation_title = title, vr_turn_number = num, vr_user_prompt = prompt,
                vr_model_name = model, vr_position = pos, vr_vote_count = n,
                vr_response_text = txt\<rparr>)
          (group_count (vote_results_joined d)))"

record voting_row =
  vi_conversation_id :: uuid
  vi_conversation_title :: string
  vi_turn_id :: uuid
  vi_turn_number :: int
  vi_user_prompt :: string
  vi_position :: char
  vi_response_text :: string
  vi_current_votes :: nat

text \<open>
  \<^verbatim>\<open>voting_interface\<close>: conversations, turns of the conversation, positions of the
  turn, the response of the position, grouped by
  \<^verbatim>\<open>c.id, c.title, t.id, t.turn_number, t.user_prompt, rp.position, r.response_text\<close>.
\<close>

definition voting_interface_joined ::
  "db \<Rightarrow> ((uuid \<times> string \<times> uuid \<times> int \<times> string \<times> char \<times> string) \<times> nat) list" where
  "voting_interface_joined d =
     [((c_id c, c_title c, t_id t, t_turn_number t, t_user_prompt t, rp_position rp,
        r_response_text r), matching_votes d (t_id t) (rp_position rp)).
        c \<leftarrow> conversations d,
        t \<leftarrow> turns d, t_conversation_id t = Some (c_id c),
        rp \<leftarrow> response_positions d, rp_turn_id rp = Some (t_id t),
        r \<leftarrow> responses d, rp_response_id rp = Some (r_id r)]"

definition voting_row_before :: "collation \<Rightarrow> voting_row \<Rightarrow> voting_row \<Rightarrow> bool" where
  "voting_row_before lt a b =
     (lt (vi_conversation_title a) (vi_conversation_title b) \<or>
      (vi_conversation_title a = vi_conversation_title b \<and>
       (vi_turn_number a < vi_turn_number b \<or>
        (vi_turn_number a = vi_turn_number b \<and> lt [vi_position a] [vi_position b]))))"

definition voting_interface :: "collation \<Rightarrow> db \<Rightarrow> voting_row list" where
  "voting_interface lt d =
     order_by (voting_row_before lt)
       (map (\<lambda>((cid, title, tid, num, prompt, pos, txt), n).
               \<lparr>vi_conversation_id = cid, vi_conversation_title = title, vi_turn_id = tid,
                vi_turn_number = num, vi_user_prompt = prompt, vi_position = pos,
                vi_response_text = txt, vi_current_votes = n\<rparr>)
          (group_count (voting_interface_joined d)))"

section \<open>The client utilities (VotingUtils)\<close>

text \<open>
  The values a JavaScript caller can pass.  Of a number only "is it zero" matters
  here, and of an object nothing but that it is one.
\<close>

datatype js_value =
  JUndefined | JNull | JBoolean bool | JNumber int | JNaN | JString string | JObject

fun truthy :: "js_value \<Rightarrow> bool" where
  "truthy JUndefined = False"
| "truthy JNull = False"
| "truthy (JBoolean b) = b"
| "truthy (JNumber n) = (n \<noteq> 0)"
| "truthy JNaN = False"
| "truthy (JString s) = (s \<noteq> [])"
| "truthy JObject = True"

fun typeof :: "js_value \<Rightarrow> string" where
  "typeof JUndefined = ''undefined''"
| "typeof JNull = ''object''"
| "typeof (JBoolean _) = ''boolean''"
| "typeof (JNumber _) = ''number''"
| "typeof JNaN = ''number''"
| "typeof (JString _) = ''string''"
| "typeof JObject = ''object''"

record validation =
  isValid :: bool
  errors :: "string list"

text \<open>\<^verbatim>\<open>validateVoteData(turnId, position, voterSession)\<close>.\<close>

definition validateVoteData :: "js_value \<Rightarrow> js_value \<Rightarrow> js_value \<Rightarrow> validation" where
  "validateVoteData turnId position voterSession =
     (let errors0 = [];
          errors1 = (if \<not> truthy turnId \<or> typeof turnId \<noteq> ''string''
                     then errors0 @ [''Invalid turn ID''] else errors0);
          errors2 = (if \<not> truthy position \<or>
                        position \<notin> set [JString ''A'', JString ''B'', JString ''C'', JString ''D'']
                     then errors1 @ [''Invalid position selection''] else errors1);
          errors3 = (if \<not> truthy voterSession \<or> typeof voterSession \<noteq> ''string''
                     then errors2 @ [''Invalid voter session''] else errors2)
      in \<lparr>isValid = (length errors3 = 0), errors = errors3\<rparr>)"

text \<open>\<^verbatim>\<open>String.prototype.includes\<close>: the second text occurs somewhere in the first.\<close>

fun starts_with :: "string \<Rightarrow> string \<Rightarrow> bool" where
  "starts_with s [] = True"
| "starts_with [] (c # cs) = False"
| "starts_with (x # xs) (c # cs) = (x = c \<and> starts_with xs cs)"

fun str_includes :: "string \<Rightarrow> string \<Rightarrow> bool" where
  "str_includes [] sub = (sub = [])"
| "str_includes (x # xs) sub = (starts_with (x # xs) sub \<or> str_includes xs sub)"

text \<open>
  The error object handed to \<^verbatim>\<open>handleError\<close>: its \<^verbatim>\<open>code\<close> and its
  \<^verbatim>\<open>message\<close>, either possibly undefined.  A toast is what \<^verbatim>\<open>showToast\<close> puts
  on the screen.
\<close>

record js_error =
  err_code :: "string option"
  err_message :: "string option"

record toast =
  toast_message :: string
  toast_type :: string

text \<open>
  \<^verbatim>\<open>handleError(error, userMessage = 'Something went wrong. Please try again.')\<close>,
  with \<^verbatim>\<open>navigator.onLine\<close> as the first argument.  The result is the returned
  message and the toast shown.
\<close>

definition handleError :: "bool \<Rightarrow> js_error \<Rightarrow> string option \<Rightarrow> string \<times> toast" where
  "handleError onLine error userMessage =
     (let message0 = (case userMessage of None \<Rightarrow> ''Something went wrong. Please try again.''
                      | Some m \<Rightarrow> m);
          message =
            (if \<not> onLine then ''You appear to be offline. Please check your connection.''
             else if err_code error = Some ''23505'' then ''You have already voted on this turn.''
             else if (case err_message error of None \<Rightarrow> False
                      | Some m \<Rightarrow> str_includes m ''network'')
               then ''Network error. Please check your connection and try again.''
             else message0)
      in (message, \<lparr>toast_message = message, toast_type = ''error''\<rparr>))"

text \<open>\<^verbatim>\<open>CONFIG.models\<close> (config.js): the keys, in the order written.\<close>

definition config_models :: "string list" where
  "config_models =
     [''google/gemini-2.5-pro'', ''anthropic/claude-sonnet-4.5'', ''openai/gpt-4.1'',
      ''openai/gpt-5'']"

section \<open>The position assigner\<close>

text \<open>
  The assigner (the import script) is not among the sources.  It is written here after
  the specification and runs against the store above.
\<close>

text \<open>
  Modelled from the spec: the fixed alphabet of position labels A, B, C, D, ... (3, 4.1)
  of the missing assigner; \<open>alphabet k\<close> is its first \<open>k\<close> labels.
\<close>

definition alphabet :: "nat \<Rightarrow> char list" where
  "alphabet k = take k ''ABCDEFGHIJKLMNOPQRSTUVWXYZ''"

text \<open>
  Modelled from the spec: the random choice of the missing assigner (4.1), as a shuffle
  driven by a source of draws.  Each element is put at a drawn place among those
  already placed; \<open>rnd n\<close> is the draw used when \<open>n\<close> elements are placed.
\<close>

fun shuffle :: "(nat \<Rightarrow> nat) \<Rightarrow> 'a list \<Rightarrow> 'a list" where
  "shuffle rnd [] = []"
| "shuffle rnd (x # xs) =
     (let ys = shuffle rnd xs; i = rnd (length xs) mod (length xs + 1)
      in take i ys @ x # drop i ys)"

text \<open>
  Modelled from the spec: how the missing assigner fails (7), with \<open>RosterMismatch\<close> or
  with what the store reported.
\<close>

datatype assign_error = RosterMismatch | StoreError sql_error

text \<open>
  Modelled from the spec: the rows the missing assigner writes for a turn (3, 4.1), one
  for each response, with the shuffled first K labels in turn.  \<open>ids\<close> and \<open>now\<close> are
  what \<^verbatim>\<open>gen_random_uuid()\<close> and \<^verbatim>\<open>NOW()\<close> give the new rows.
\<close>

definition assignment_rows ::
  "(nat \<Rightarrow> nat) \<Rightarrow> (nat \<Rightarrow> uuid) \<Rightarrow> timestamptz \<Rightarrow> uuid \<Rightarrow> response list \<Rightarrow> response_position list" where
  "assignment_rows rnd ids now t rs =
     map (\<lambda>(i, r, l). \<lparr>rp_id = ids i, rp_turn_id = Some t, rp_response_id = Some (r_id r),
                        rp_position = l, rp_created_at = Some now\<rparr>)
       (zip [0..<length rs] (zip rs (shuffle rnd (alphabet (length rs)))))"

text \<open>
  Modelled from the spec: the position assigner (4.1, 7), whose code is missing.  Given
  a turn it fails fast with \<open>RosterMismatch\<close> when the number or the models of the
  turn's responses do not match the roster; it is a no-op when the turn already has an
  assignment; otherwise it draws a random bijection from the responses onto the first
  K labels and persists it by one statement against the response\_positions table,
  which either writes all the rows or none.
\<close>

definition assign_positions ::
  "string list \<Rightarrow> (nat \<Rightarrow> nat) \<Rightarrow> (nat \<Rightarrow> uuid) \<Rightarrow> timestamptz \<Rightarrow> uuid \<Rightarrow> db \<Rightarrow>
   assign_error option \<times> db" where
  "assign_positions roster rnd ids now t d =
     (let rs = responses_of d t in
      if length rs \<noteq> length roster \<or> set (map r_model_name rs) \<noteq> set roster
        then (Some RosterMismatch, d)
      else if positions_of d t \<noteq> [] then (None, d)
      else (case exec d (InsertPositions (assignment_rows rnd ids now t rs)) of
              (Some e, d') \<Rightarrow> (Some (StoreError e), d')
            | (None, d') \<Rightarrow> (None, d')))"

section \<open>Example stores\<close>

definition conv1 :: conversation where
  "conv1 = \<lparr>c_id = ''c1'', c_title = ''Chat'', c_source_file = None, c_imported_at = Some 0,
            c_metadata = None\<rparr>"

definition turn1 :: turn where
  "turn1 = \<lparr>t_id = ''t1'', t_conversation_id = Some ''c1'', t_turn_number = 1,
            t_user_prompt = ''Hi'', t_created_at = Some 0\<rparr>"

definition mk_vote :: "uuid \<Rightarrow> uuid option \<Rightarrow> char \<Rightarrow> string option \<Rightarrow> vote" where
  "mk_vote i t p s = \<lparr>v_id = i, v_turn_id = t, v_position = p, v_voter_session = s,
                     v_voted_at = Some 0, v_notes = None\<rparr>"

definition db0 :: db where
  "db0 = \<lparr>conversations = [conv1], turns = [turn1], responses = [], response_positions = [],
          votes = []\<rparr>"

text \<open>
  The scenario of the spec: one turn with the responses of four models, assigned
  A = gpt-5, B = gemini, C = claude, D = gpt-4.1.
\<close>

definition mk_response :: "uuid \<Rightarrow> string \<Rightarrow> string \<Rightarrow> int \<Rightarrow> response" where
  "mk_response i m txt n = \<lparr>r_id = i, r_turn_id = Some ''t1'', r_model_name = m,
                           r_response_text = txt, r_response_order = n, r_created_at = Some 0\<rparr>"

definition mk_position :: "uuid \<Rightarrow> uuid \<Rightarrow> char \<Rightarrow> response_position" where
  "mk_position i r p = \<lparr>rp_id = i, rp_turn_id = Some ''t1'', rp_response_id = Some r,
                        rp_position = p, rp_created_at = Some 0\<rparr>"

definition responses4 :: "response list" where
  "responses4 = [mk_response ''r1'' ''gemini'' ''w'' 1, mk_response ''r2'' ''claude'' ''x'' 2,
                 mk_response ''r3'' ''gpt4.1'' ''y'' 3, mk_response ''r4'' ''gpt5'' ''z'' 4]"

definition db1 :: db where
  "db1 = \<lparr>conversations = [conv1], turns = [turn1], responses = responses4,
          response_positions =
            [mk_position ''p1'' ''r1'' CHR ''B'', mk_position ''p2'' ''r2'' CHR ''C'',
             mk_position ''p3'' ''r3'' CHR ''D'', mk_position ''p4'' ''r4'' CHR ''A''],
          votes = []\<rparr>"

text \<open>
  What the assigner is given in the scenario: the roster, draws that lead to the
  assignment above, and the ids of the four new rows.
\<close>

definition scenario_roster :: "string list" where
  "scenario_roster = [''gemini'', ''claude'', ''gpt4.1'', ''gpt5'']"

definition scenario_rnd :: "nat \<Rightarrow> nat" where
  "scenario_rnd n = (if n = 3 then 3 else 0)"

definition scenario_ids :: "nat \<Rightarrow> uuid" where
  "scenario_ids i = [''p1'', ''p2'', ''p3'', ''p4''] ! i"

text \<open>Byte order on texts, the collation \<^verbatim>\<open>C\<close>.\<close>

fun bytewise :: collation where
  "bytewise [] [] = False"
| "bytewise [] (y # ys) = True"
| "bytewise (x # xs) [] = False"
| "bytewise (x # xs) (y # ys) =
     ((of_char x :: nat) < of_char y \<or> (x = y \<and> bytewise xs ys))"

text \<open>The scenario's store with the four models attached to the responses the other way round.\<close>

definition db1_swapped :: db where
  "db1_swapped = db1\<lparr>responses :=
     [mk_response ''r1'' ''gpt5'' ''w'' 1, mk_response ''r2'' ''gpt4.1'' ''x'' 2,
      mk_response ''r3'' ''claude'' ''y'' 3, mk_response ''r4'' ''gemini'' ''z'' 4]\<rparr>"

definition mk_row :: "char \<Rightarrow> string \<Rightarrow> nat \<Rightarrow> voting_row" where
  "mk_row p txt n = \<lparr>vi_conversation_id = ''c1'', vi_conversation_title = ''Chat'',
     vi_turn_id = ''t1'', vi_turn_number = 1, vi_user_prompt = ''Hi'', vi_position = p,
     vi_response_text = txt, vi_current_votes = n\<rparr>"

definition mk_result :: "string \<Rightarrow> char \<Rightarrow> nat \<Rightarrow> string \<Rightarrow> vote_result" where
  "mk_result m p n txt = \<lparr>vr_conversation_title = ''Chat'', vr_turn_number = 1,
     vr_user_prompt = ''Hi'', vr_model_name = m, vr_position = p, vr_vote_count = n,
     vr_response_text = txt\<rparr>"

definition votes3 :: "vote list" where
  "votes3 = [mk_vote ''v1'' (Some ''t1'') CHR ''B'' (Some ''s1''),
             mk_vote ''v2'' (Some ''t1'') CHR ''A'' (Some ''s2''),
             mk_vote ''v3'' (Some ''t1'') CHR ''B'' (Some ''s3'')]"

section \<open>Evaluation of the examples\<close>

lemmas example_defs = db1_def conv1_def turn1_def responses4_def mk_response_def
  mk_position_def mk_vote_def

section \<open>The votes table: one vote per turn and session\<close>

lemma insert_vote_Inr:
  "insert_vote d v = Inr d' \<Longrightarrow> d' = d\<lparr>votes := votes d @ [v]\<rparr>"
  by (simp add: insert_vote_def split: if_splits)

lemma insert_vote_no_conflict:
  "insert_vote d v = Inr d' \<Longrightarrow> v_turn_id v = Some t \<Longrightarrow> v_voter_session v = Some s \<Longrightarrow>
   votes_for d t s = []"
  by (auto simp: insert_vote_def votes_for_def unique_conflict_def list_ex_iff filter_empty_conv
      split: if_splits)

lemma votes_for_append:
  "votes_for (d\<lparr>votes := votes d @ [v]\<rparr>) t s =
   votes_for d t s @ (if v_turn_id v = Some t \<and> v_voter_session v = Some s then [v] else [])"
  by (simp add: votes_for_def)

lemma insert_response_positions_votes:
  "insert_response_positions d ps = Inr d' \<Longrightarrow> votes d' = votes d"
proof (induction ps arbitrary: d)
  case Nil
  then show ?case by simp
next
  case (Cons p ps)
  then show ?case
    by (auto simp: insert_response_position_def split: sum.splits if_splits)
qed

lemma exec_unique:
  assumes "\<forall>t s. length (votes_for d t s) \<le> 1"
  shows "length (votes_for (snd (exec d st)) t s) \<le> 1"
proof (cases st)
  case (InsertVote v)
  show ?thesis
  proof (cases "insert_vote d v")
    case (Inl e)
    with InsertVote assms show ?thesis by simp
  next
    case (Inr d')
    have d': "d' = d\<lparr>votes := votes d @ [v]\<rparr>" using Inr by (rule insert_vote_Inr)
    show ?thesis
    proof (cases "v_turn_id v = Some t \<and> v_voter_session v = Some s")
      case True
      then have "votes_for d t s = []" using Inr insert_vote_no_conflict by blast
      with InsertVote Inr d' True show ?thesis by (simp add: votes_for_append)
    next
      case False
      with InsertVote Inr d' assms show ?thesis by (auto simp: votes_for_append)
    qed
  qed
next
  case DeleteVotes
  then show ?thesis by (simp add: delete_votes_def votes_for_def)
next
  case (InsertPositions ps)
  have "votes (snd (exec d (InsertPositions ps))) = votes d"
    by (simp add: insert_response_positions_votes split: sum.splits)
  then have "votes_for (snd (exec d (InsertPositions ps))) t s = votes_for d t s"
    by (simp add: votes_for_def)
  with InsertPositions assms show ?thesis by simp
qed

lemma exec_all_unique:
  "\<forall>t s. length (votes_for d t s) \<le> 1 \<Longrightarrow>
   \<forall>t s. length (votes_for (snd (exec_all d ss)) t s) \<le> 1"
proof (induction ss arbitrary: d)
  case Nil
  then show ?case by simp
next
  case (Cons st ss)
  have step: "\<forall>t s. length (votes_for (snd (exec d st)) t s) \<le> 1"
    using Cons.prems exec_unique by blast
  have "snd (exec_all d (st # ss)) = snd (exec_all (snd (exec d st)) ss)"
    by (simp split: prod.splits)
  with Cons.IH [OF step] show ?case by simp
qed

lemma insert_vote_duplicate:
  assumes "w \<in> set (votes d)" "v_turn_id w = Some t" "v_voter_session w = Some s"
    "v_turn_id v = Some t" "v_voter_session v = Some s"
  shows "\<exists>e. insert_vote d v = Inl e \<and> (position_check (v_position v) \<longrightarrow> sqlstate e = ''23505'')"
proof -
  have "list_ex (\<lambda>w. unique_conflict (v_turn_id w) (v_voter_session w)
                        (v_turn_id v) (v_voter_session v)) (votes d)"
    using assms by (auto simp: list_ex_iff unique_conflict_def)
  then show ?thesis by (simp add: insert_vote_def)
qed

text \<open>
  C1.  Starting from an empty votes table, whatever sequence of statements (vote
  insertions, purges, position insertions) is run against the store, a turn and a voter
  session never have more than one vote row between them; and in any store that holds a
  vote of a session on a turn, the insertion of another vote of that session on that
  turn is rejected by the store (with SQLSTATE 23505, a unique violation, when its
  position passes the \<^verbatim>\<open>CHECK\<close>), and the store, its votes table included, stays as
  it was.
\<close>

theorem one_vote_per_turn_and_session:
  assumes "votes d0 = []"
  shows "(\<forall>t s. length (votes_for (snd (exec_all d0 ss)) t s) \<le> 1) \<and>
         (\<forall>d w v t s. w \<in> set (votes d) \<and> v_turn_id w = Some t \<and> v_voter_session w = Some s \<and>
              v_turn_id v = Some t \<and> v_voter_session v = Some s \<longrightarrow>
              (\<exists>e. exec d (InsertVote v) = (Some e, d) \<and>
                   (position_check (v_position v) \<longrightarrow> sqlstate e = ''23505'')) \<and>
              votes (snd (exec d (InsertVote v))) = votes d)"
proof -
  have "\<forall>t s. length (votes_for d0 t s) \<le> 1"
    using assms by (simp add: votes_for_def)
  then have inv: "\<forall>t s. length (votes_for (snd (exec_all d0 ss)) t s) \<le> 1"
    by (rule exec_all_unique)
  have rej: "(\<exists>e. exec d (InsertVote v) = (Some e, d) \<and>
                  (position_check (v_position v) \<longrightarrow> sqlstate e = ''23505'')) \<and>
             votes (snd (exec d (InsertVote v))) = votes d"
    if dup: "w \<in> set (votes d)" "v_turn_id w = Some t" "v_voter_session w = Some s"
      "v_turn_id v = Some t" "v_voter_session v = Some s" for d w v t s
  proof -
    obtain e where "insert_vote d v = Inl e"
      and "position_check (v_position v) \<longrightarrow> sqlstate e = ''23505''"
      using insert_vote_duplicate [OF dup] by blast
    then show ?thesis by auto
  qed
  from inv rej show ?thesis by blast
qed

theorem one_vote_per_turn_and_session_witness:
  "votes db0 = [] \<and>
   exec_all db0 [InsertVote (mk_vote ''v1'' (Some ''t1'') CHR ''B'' (Some ''s1'')),
                 InsertVote (mk_vote ''v2'' (Some ''t1'') CHR ''D'' (Some ''s1''))] =
     ([None, Some (UniqueViolation ''unique_vote_per_session_per_turn'')],
      db0\<lparr>votes := [mk_vote ''v1'' (Some ''t1'') CHR ''B'' (Some ''s1'')]\<rparr>) \<and>
   length (votes_for (snd (exec_all db0
     [InsertVote (mk_vote ''v1'' (Some ''t1'') CHR ''B'' (Some ''s1'')),
      InsertVote (mk_vote ''v2'' (Some ''t1'') CHR ''D'' (Some ''s1''))])) ''t1'' ''s1'') = 1 \<and>
   sqlstate (UniqueViolation ''unique_vote_per_session_per_turn'') = ''23505''"
proof -
  have h: "votes db0 = []" by (simp add: db0_def)
  show ?thesis
    using h one_vote_per_turn_and_session [OF h,
        of "[InsertVote (mk_vote ''v1'' (Some ''t1'') CHR ''B'' (Some ''s1'')),
             InsertVote (mk_vote ''v2'' (Some ''t1'') CHR ''D'' (Some ''s1''))]"]
    by (simp add: db0_def turn1_def conv1_def mk_vote_def insert_vote_def position_check_def
        unique_conflict_def references_turn_def votes_for_def)
qed

lemma insert_vote_null_session:
  assumes "t \<in> set (map t_id (turns d))" "v_id v \<notin> set (map v_id (votes d))"
    "v_turn_id v = Some t" "v_voter_session v = None" "position_check (v_position v)"
  shows "insert_vote d v = Inr (d\<lparr>votes := votes d @ [v]\<rparr>)"
proof -
  have pk: "\<not> list_ex (\<lambda>w. v_id w = v_id v) (votes d)"
    using assms(2) by (force simp: list_ex_iff image_iff)
  have uq: "\<not> list_ex (\<lambda>w. unique_conflict (v_turn_id w) (v_voter_session w)
                             (v_turn_id v) (v_voter_session v)) (votes d)"
    using assms(4) by (auto simp: list_ex_iff unique_conflict_def)
  have fk: "references_turn d (v_turn_id v)"
    using assms(1,3) by (simp add: references_turn_def)
  from pk uq fk assms(5) show ?thesis by (simp add: insert_vote_def)
qed

text \<open>
  C2.  \<open>v_voter_session\<close> is nullable (an option), and the uniqueness constraint is over
  \<open>(turn_id, voter_session)\<close> with NULLs distinct.  So on an existing turn any list of
  vote rows with fresh, distinct ids, valid positions and a NULL session is accepted
  row after row, and all of them stand in the table together.
\<close>

theorem null_session_votes_coexist:
  assumes "t \<in> set (map t_id (turns d))"
    and "distinct (map v_id vs)"
    and "set (map v_id vs) \<inter> set (map v_id (votes d)) = {}"
    and "\<forall>v\<in>set vs. v_turn_id v = Some t \<and> v_voter_session v = None \<and>
           position_check (v_position v)"
  shows "exec_all d (map InsertVote vs) = (map (\<lambda>_. None) vs, d\<lparr>votes := votes d @ vs\<rparr>)"
  using assms
proof (induction vs arbitrary: d)
  case Nil
  then show ?case by simp
next
  case (Cons v vs)
  let ?d = "d\<lparr>votes := votes d @ [v]\<rparr>"
  have ins: "insert_vote d v = Inr ?d"
    using Cons.prems by (intro insert_vote_null_session [of t]) auto
  have "exec_all ?d (map InsertVote vs) = (map (\<lambda>_. None) vs, ?d\<lparr>votes := votes ?d @ vs\<rparr>)"
    using Cons.prems by (intro Cons.IH) auto
  with ins show ?case by simp
qed

theorem null_session_votes_coexist_witness:
  "''t1'' \<in> set (map t_id (turns db0)) \<and>
   distinct (map v_id
     [mk_vote ''v1'' (Some ''t1'') CHR ''A'' None, mk_vote ''v2'' (Some ''t1'') CHR ''A'' None,
      mk_vote ''v3'' (Some ''t1'') CHR ''C'' None]) \<and>
   exec_all db0 (map InsertVote
     [mk_vote ''v1'' (Some ''t1'') CHR ''A'' None, mk_vote ''v2'' (Some ''t1'') CHR ''A'' None,
      mk_vote ''v3'' (Some ''t1'') CHR ''C'' None]) =
   ([None, None, None],
    db0\<lparr>votes := [mk_vote ''v1'' (Some ''t1'') CHR ''A'' None,
                   mk_vote ''v2'' (Some ''t1'') CHR ''A'' None,
                   mk_vote ''v3'' (Some ''t1'') CHR ''C'' None]\<rparr>)"
proof -
  let ?vs = "[mk_vote ''v1'' (Some ''t1'') CHR ''A'' None,
              mk_vote ''v2'' (Some ''t1'') CHR ''A'' None,
              mk_vote ''v3'' (Some ''t1'') CHR ''C'' None]"
  have h1: "''t1'' \<in> set (map t_id (turns db0))"
    by (simp add: db0_def turn1_def)
  have h2: "distinct (map v_id ?vs)"
    by (simp add: mk_vote_def)
  have h3: "set (map v_id ?vs) \<inter> set (map v_id (votes db0)) = {}"
    by (simp add: db0_def)
  have h4: "\<forall>v\<in>set ?vs. v_turn_id v = Some ''t1'' \<and> v_voter_session v = None \<and>
              position_check (v_position v)"
    by (simp add: mk_vote_def position_check_def)
  show ?thesis
    using h1 h2 null_session_votes_coexist [OF h1 h2 h3 h4]
    by (simp add: db0_def)
qed

section \<open>The administrative reset\<close>

text \<open>
  C6.  The purge (\<^verbatim>\<open>DELETE FROM votes\<close>, as a statement and in both reset scripts)
  leaves no vote row and leaves the conversations, turns, responses and
  response\_positions tables exactly as they were; the counts the scripts report
  afterwards are zero votes and the unchanged numbers of the other rows.
\<close>

theorem purge_votes_frame:
  "exec d DeleteVotes = (None, fst (reset_votes d)) \<and>
   fst (snd (cleanup_test_data d)) = fst (reset_votes d) \<and>
   votes (fst (reset_votes d)) = [] \<and>
   conversations (fst (reset_votes d)) = conversations d \<and>
   turns (fst (reset_votes d)) = turns d \<and>
   responses (fst (reset_votes d)) = responses d \<and>
   response_positions (fst (reset_votes d)) = response_positions d \<and>
   snd (reset_votes d) =
     \<lparr>conversations_count = length (conversations d), turns_count = length (turns d),
      responses_count = length (responses d), votes_count = 0\<rparr> \<and>
   snd (snd (cleanup_test_data d)) =
     \<lparr>after_total_votes = 0, conversations_kept = length (conversations d),
      turns_kept = length (turns d), responses_kept = length (responses d)\<rparr>"
  by (simp add: reset_votes_def cleanup_test_data_def delete_votes_def Let_def)

theorem purge_votes_frame_witness:
  "votes (db0\<lparr>votes := [mk_vote ''v1'' (Some ''t1'') CHR ''A'' (Some ''s1'')]\<rparr>) \<noteq> [] \<and>
   reset_votes (db0\<lparr>votes := [mk_vote ''v1'' (Some ''t1'') CHR ''A'' (Some ''s1'')]\<rparr>) =
     (db0, \<lparr>conversations_count = 1, turns_count = 1, responses_count = 0, votes_count = 0\<rparr>)"
  using purge_votes_frame [of "db0\<lparr>votes := [mk_vote ''v1'' (Some ''t1'') CHR ''A'' (Some ''s1'')]\<rparr>"]
  by (simp add: reset_votes_def delete_votes_def db0_def)

section \<open>Duplicate votes at the client\<close>

text \<open>
  C4, as the claim states it, has the caller shown the prior choice.  What the caller
  gets is the store's error and what \<open>handleError\<close> makes of it: two stores in which the
  session's earlier vote on the turn is A in one and B in the other answer the same
  duplicate submission with the same error, and the handler shows the same fixed
  message, as an error toast, for both.
\<close>

theorem duplicate_vote_prior_choice_counterexample:
  "exec (db1\<lparr>votes := [mk_vote ''v1'' (Some ''t1'') CHR ''A'' (Some ''s1'')]\<rparr>)
     (InsertVote (mk_vote ''v2'' (Some ''t1'') CHR ''C'' (Some ''s1''))) =
     (Some (UniqueViolation ''unique_vote_per_session_per_turn''),
      db1\<lparr>votes := [mk_vote ''v1'' (Some ''t1'') CHR ''A'' (Some ''s1'')]\<rparr>) \<and>
   exec (db1\<lparr>votes := [mk_vote ''v1'' (Some ''t1'') CHR ''B'' (Some ''s1'')]\<rparr>)
     (InsertVote (mk_vote ''v2'' (Some ''t1'') CHR ''C'' (Some ''s1''))) =
     (Some (UniqueViolation ''unique_vote_per_session_per_turn''),
      db1\<lparr>votes := [mk_vote ''v1'' (Some ''t1'') CHR ''B'' (Some ''s1'')]\<rparr>) \<and>
   handleError True
     \<lparr>err_code = Some (sqlstate (UniqueViolation ''unique_vote_per_session_per_turn'')),
      err_message = Some ''duplicate key value violates unique constraint''\<rparr> None =
     (''You have already voted on this turn.'',
      \<lparr>toast_message = ''You have already voted on this turn.'', toast_type = ''error''\<rparr>) \<and>
   v_position (mk_vote ''v1'' (Some ''t1'') CHR ''A'' (Some ''s1'')) \<noteq>
     v_position (mk_vote ''v1'' (Some ''t1'') CHR ''B'' (Some ''s1''))"
  by (simp add: insert_vote_def position_check_def unique_conflict_def handleError_def Let_def mk_vote_def db1_def)

text \<open>
  C4, amended.  When a session that has a vote on a turn submits another vote on it
  (with a position the schema admits), the store rejects the insertion with SQLSTATE
  23505 and stays as it was, so the existing row is neither overwritten nor
  duplicated; and for an error object with that code and the browser online,
  \<open>handleError\<close> returns and shows, as an error toast, the message
  "You have already voted on this turn." whatever generic message it was given.
\<close>

theorem duplicate_vote_rejected_and_reported:
  assumes "w \<in> set (votes d)" "v_turn_id w = Some t" "v_voter_session w = Some s"
    and "v_turn_id v = Some t" "v_voter_session v = Some s"
    and "position_check (v_position v)"
  shows "\<exists>e. exec d (InsertVote v) = (Some e, d) \<and> sqlstate e = ''23505'' \<and>
           (\<forall>err userMessage. err_code err = Some (sqlstate e) \<longrightarrow>
              handleError True err userMessage =
                (''You have already voted on this turn.'',
                 \<lparr>toast_message = ''You have already voted on this turn.'',
                  toast_type = ''error''\<rparr>))"
proof -
  obtain e where e: "insert_vote d v = Inl e" "sqlstate e = ''23505''"
    using insert_vote_duplicate [OF assms(1-5)] assms(6) by blast
  have "handleError True err userMessage =
          (''You have already voted on this turn.'',
           \<lparr>toast_message = ''You have already voted on this turn.'', toast_type = ''error''\<rparr>)"
    if "err_code err = Some (sqlstate e)" for err userMessage
    using that e(2) by (simp add: handleError_def Let_def)
  with e show ?thesis by simp
qed

theorem duplicate_vote_rejected_and_reported_witness:
  "mk_vote ''v1'' (Some ''t1'') CHR ''B'' (Some ''s1'') \<in>
     set (votes (db1\<lparr>votes := [mk_vote ''v1'' (Some ''t1'') CHR ''B'' (Some ''s1'')]\<rparr>)) \<and>
   position_check CHR ''D'' \<and>
   exec (db1\<lparr>votes := [mk_vote ''v1'' (Some ''t1'') CHR ''B'' (Some ''s1'')]\<rparr>)
     (InsertVote (mk_vote ''v2'' (Some ''t1'') CHR ''D'' (Some ''s1''))) =
     (Some (UniqueViolation ''unique_vote_per_session_per_turn''),
      db1\<lparr>votes := [mk_vote ''v1'' (Some ''t1'') CHR ''B'' (Some ''s1'')]\<rparr>) \<and>
   fst (handleError True \<lparr>err_code = Some ''23505'', err_message = None\<rparr> None) =
     ''You have already voted on this turn.''"
proof -
  have h1: "mk_vote ''v1'' (Some ''t1'') CHR ''B'' (Some ''s1'') \<in>
     set (votes (db1\<lparr>votes := [mk_vote ''v1'' (Some ''t1'') CHR ''B'' (Some ''s1'')]\<rparr>))"
    by simp
  have h2: "v_turn_id (mk_vote i (Some ''t1'') p (Some ''s1'')) = Some ''t1''"
    and h3: "v_voter_session (mk_vote i (Some ''t1'') p (Some ''s1'')) = Some ''s1''" for i p
    by (simp_all add: mk_vote_def)
  have h4: "position_check (v_position (mk_vote ''v2'' (Some ''t1'') CHR ''D'' (Some ''s1'')))"
    by (simp add: mk_vote_def position_check_def)
  show ?thesis
    using duplicate_vote_rejected_and_reported [OF h1 h2 h3 h2 h3 h4]
    by (simp add: insert_vote_def position_check_def unique_conflict_def handleError_def
        Let_def mk_vote_def db1_def)
qed

section \<open>Validation of a vote\<close>

text \<open>
  C7, as the claim states it, has the validation accept only a \<open>turnId\<close> that
  references an existing turn and a position that is a label of that turn.
  \<open>validateVoteData\<close> never consults the store: it accepts a well-formed request for a
  turn that does not exist and has no position assigned.
\<close>

theorem validateVoteData_unknown_turn_counterexample:
  "isValid (validateVoteData (JString ''no-such-turn'') (JString ''D'') (JString ''s1'')) \<and>
   \<not> references_turn db0 (Some ''no-such-turn'') \<and>
   positions_of db0 ''no-such-turn'' = []"
  by (simp add: validateVoteData_def references_turn_def positions_of_def db0_def turn1_def)

text \<open>
  C7, amended.  \<open>validateVoteData\<close> reports a request as valid exactly when \<open>turnId\<close> is
  a non-empty string, \<open>position\<close> is one of the strings A, B, C, D, and \<open>voterSession\<close>
  is a non-empty string; every other input is reported invalid.
\<close>

theorem validateVoteData_accepts:
  "isValid (validateVoteData turnId position voterSession) =
     ((\<exists>t. turnId = JString t \<and> t \<noteq> []) \<and>
      position \<in> {JString ''A'', JString ''B'', JString ''C'', JString ''D''} \<and>
      (\<exists>s. voterSession = JString s \<and> s \<noteq> []))"
proof -
  have str: "(truthy x \<and> typeof x = ''string'') = (\<exists>t. x = JString t \<and> t \<noteq> [])" for x
    by (cases x) auto
  have pos: "(truthy position \<and>
              position \<in> set [JString ''A'', JString ''B'', JString ''C'', JString ''D'']) =
             (position \<in> {JString ''A'', JString ''B'', JString ''C'', JString ''D''})"
    by auto
  have "isValid (validateVoteData turnId position voterSession) =
        ((truthy turnId \<and> typeof turnId = ''string'') \<and>
         (truthy position \<and>
              position \<in> set [JString ''A'', JString ''B'', JString ''C'', JString ''D'']) \<and>
         (truthy voterSession \<and> typeof voterSession = ''string''))"
    by (simp add: validateVoteData_def Let_def)
  then show ?thesis unfolding str pos .
qed

theorem validateVoteData_accepts_witness:
  "validateVoteData (JString ''t1'') (JString ''B'') (JString ''s1'') = \<lparr>isValid = True, errors = []\<rparr> \<and>
   validateVoteData (JString '''') (JString ''E'') (JNumber 7) =
     \<lparr>isValid = False,
      errors = [''Invalid turn ID'', ''Invalid position selection'', ''Invalid voter session'']\<rparr> \<and>
   isValid (validateVoteData JNull (JString ''A'') (JString ''s1'')) = False"
  using validateVoteData_accepts [of "JString ''t1''" "JString ''B''" "JString ''s1''"]
    validateVoteData_accepts [of JNull "JString ''A''" "JString ''s1''"]
  by (simp add: validateVoteData_def)

section \<open>The views\<close>

lemma voting_interface_joined_erase:
  "voting_interface_joined (without_model_names d) = voting_interface_joined d"
  by (simp add: voting_interface_joined_def matching_votes_def without_model_names_def o_def
      cong: if_cong)

text \<open>
  C5.  The rows of the \<open>voting_interface\<close> view have no column for the model, and the
  view does not read it: two stores that differ only in the model names of their
  responses give the same rows, under any collation.
\<close>

theorem voting_interface_hides_model:
  assumes "without_model_names d1 = without_model_names d2"
  shows "voting_interface lt d1 = voting_interface lt d2"
proof -
  have "voting_interface_joined d1 = voting_interface_joined (without_model_names d1)"
    by (rule voting_interface_joined_erase [symmetric])
  also have "\<dots> = voting_interface_joined (without_model_names d2)"
    using assms by simp
  also have "\<dots> = voting_interface_joined d2"
    by (rule voting_interface_joined_erase)
  finally show ?thesis by (simp add: voting_interface_def)
qed

theorem voting_interface_hides_model_witness:
  "without_model_names db1 = without_model_names db1_swapped \<and>
   map r_model_name (responses db1) \<noteq> map r_model_name (responses db1_swapped) \<and>
   voting_interface bytewise db1_swapped = voting_interface bytewise db1 \<and>
   voting_interface bytewise db1 =
     [mk_row CHR ''A'' ''z'' 0, mk_row CHR ''B'' ''w'' 0, mk_row CHR ''C'' ''x'' 0,
      mk_row CHR ''D'' ''y'' 0]"
proof -
  have h: "without_model_names db1 = without_model_names db1_swapped"
    by (simp add: without_model_names_def db1_swapped_def example_defs)
  have v: "voting_interface bytewise db1 =
     [mk_row CHR ''A'' ''z'' 0, mk_row CHR ''B'' ''w'' 0, mk_row CHR ''C'' ''x'' 0,
      mk_row CHR ''D'' ''y'' 0]"
    by (simp add: voting_interface_def voting_interface_joined_def group_count_def order_by_def
        voting_row_before_def matching_votes_def example_defs mk_row_def)
  show ?thesis
    using h v voting_interface_hides_model [OF h, of bytewise]
    by (simp add: db1_swapped_def example_defs)
qed

lemma length_filter_mset: "mset xs = mset ys \<Longrightarrow> length (filter P xs) = length (filter P ys)"
  by (metis mset_filter size_mset)

text \<open>
  C10.  The \<open>vote_results\<close> view is computed from the stored rows alone, and the order
  in which the vote rows stand in their table (the order they were inserted in) does
  not matter: a store holding the same votes in another order gives the same rows with
  the same counts per model.  The view is a plain view, recomputed at each read, so a
  tally read earlier from the same votes is the tally recomputed now.
\<close>

theorem vote_results_order_independent:
  assumes "mset vs = mset (votes d)"
  shows "vote_results lt (d\<lparr>votes := vs\<rparr>) = vote_results lt d"
proof -
  have m: "matching_votes (d\<lparr>votes := vs\<rparr>) t p = matching_votes d t p" for t p
    unfolding matching_votes_def using length_filter_mset [OF assms] by simp
  have "vote_results_joined (d\<lparr>votes := vs\<rparr>) = vote_results_joined d"
    by (simp add: vote_results_joined_def m cong: if_cong)
  then show ?thesis by (simp add: vote_results_def)
qed

theorem vote_results_order_independent_witness:
  "mset (rev votes3) = mset (votes (db1\<lparr>votes := votes3\<rparr>)) \<and>
   rev votes3 \<noteq> votes3 \<and>
   vote_results bytewise (db1\<lparr>votes := rev votes3\<rparr>) = vote_results bytewise (db1\<lparr>votes := votes3\<rparr>) \<and>
   vote_results bytewise (db1\<lparr>votes := votes3\<rparr>) =
     [mk_result ''gpt5'' CHR ''A'' 1 ''z'', mk_result ''gemini'' CHR ''B'' 2 ''w'',
      mk_result ''claude'' CHR ''C'' 0 ''x'', mk_result ''gpt4.1'' CHR ''D'' 0 ''y'']"
proof -
  have h: "mset (rev votes3) = mset (votes (db1\<lparr>votes := votes3\<rparr>))"
    by simp
  have v: "vote_results bytewise (db1\<lparr>votes := votes3\<rparr>) =
     [mk_result ''gpt5'' CHR ''A'' 1 ''z'', mk_result ''gemini'' CHR ''B'' 2 ''w'',
      mk_result ''claude'' CHR ''C'' 0 ''x'', mk_result ''gpt4.1'' CHR ''D'' 0 ''y'']"
    by (simp add: vote_results_def vote_results_joined_def group_count_def order_by_def
        vote_result_before_def matching_votes_def example_defs mk_result_def
        votes3_def)
  show ?thesis
    using h v vote_results_order_independent [OF h, of bytewise]
    by (simp add: votes3_def mk_vote_def)
qed

section \<open>Position assignment\<close>

lemma insert_response_position_Inr:
  "insert_response_position d p = Inr d' \<Longrightarrow>
   d' = d\<lparr>response_positions := response_positions d @ [p]\<rparr>"
  by (simp add: insert_response_position_def split: if_splits)

lemma insert_response_position_accepts:
  assumes "insert_response_position d p = Inr d'" "rp_turn_id p = Some t"
    "q \<in> set (response_positions d)" "rp_turn_id q = Some t"
  shows "rp_position q \<noteq> rp_position p"
    and "rp_response_id p \<noteq> None \<Longrightarrow> rp_response_id q \<noteq> rp_response_id p"
proof -
  have a: "\<not> list_ex (\<lambda>q. unique_conflict (rp_turn_id q) (rp_response_id q)
                              (rp_turn_id p) (rp_response_id p)) (response_positions d)"
    and b: "\<not> list_ex (\<lambda>q. unique_conflict (rp_turn_id q) (Some (rp_position q))
                              (rp_turn_id p) (Some (rp_position p))) (response_positions d)"
    using assms(1) by (simp_all add: insert_response_position_def split: if_splits)
  from b assms(2-4) show "rp_position q \<noteq> rp_position p"
    by (auto simp: list_ex_iff unique_conflict_def)
  from a assms(2-4) show "rp_response_id p \<noteq> None \<Longrightarrow> rp_response_id q \<noteq> rp_response_id p"
    by (auto simp: list_ex_iff unique_conflict_def)
qed

lemma insert_response_position_checked:
  "insert_response_position d p = Inr d' \<Longrightarrow> position_check (rp_position p)"
  by (simp add: insert_response_position_def split: if_splits)

lemma insert_response_positions_Inr:
  "insert_response_positions d ps = Inr d' \<Longrightarrow>
   d' = d\<lparr>response_positions := response_positions d @ ps\<rparr>"
proof (induction ps arbitrary: d)
  case Nil
  then show ?case by simp
next
  case (Cons p ps)
  from Cons.prems obtain d1 where d1: "insert_response_position d p = Inr d1"
    and rest: "insert_response_positions d1 ps = Inr d'"
    by (auto split: sum.splits)
  from d1 have "d1 = d\<lparr>response_positions := response_positions d @ [p]\<rparr>"
    by (rule insert_response_position_Inr)
  with Cons.IH [OF rest] show ?case by simp
qed

lemma insert_response_positions_accepts:
  assumes "insert_response_positions d ps = Inr d'"
    and "\<forall>p\<in>set ps. rp_turn_id p = Some t \<and> rp_response_id p \<noteq> None"
  shows "distinct (map rp_position ps) \<and> distinct (map rp_response_id ps) \<and>
         (\<forall>p\<in>set ps. position_check (rp_position p)) \<and>
         (\<forall>p\<in>set ps. \<forall>q\<in>set (response_positions d). rp_turn_id q = Some t \<longrightarrow>
            rp_position q \<noteq> rp_position p \<and> rp_response_id q \<noteq> rp_response_id p)"
  using assms
proof (induction ps arbitrary: d)
  case Nil
  then show ?case by simp
next
  case (Cons p ps)
  from Cons.prems(1) obtain d1 where d1: "insert_response_position d p = Inr d1"
    and rest: "insert_response_positions d1 ps = Inr d'"
    by (auto split: sum.splits)
  have p: "rp_turn_id p = Some t" "rp_response_id p \<noteq> None"
    using Cons.prems(2) by auto
  have d1_eq: "response_positions d1 = response_positions d @ [p]"
    using insert_response_position_Inr [OF d1] by simp
  have tail: "\<forall>p\<in>set ps. rp_turn_id p = Some t \<and> rp_response_id p \<noteq> None"
    using Cons.prems(2) by simp
  have IH1: "distinct (map rp_position ps)" and IH2: "distinct (map rp_response_id ps)"
    and IH3: "\<forall>p\<in>set ps. position_check (rp_position p)"
    and IH4: "\<forall>p'\<in>set ps. \<forall>q\<in>set (response_positions d @ [p]). rp_turn_id q = Some t \<longrightarrow>
            rp_position q \<noteq> rp_position p' \<and> rp_response_id q \<noteq> rp_response_id p'"
    using Cons.IH [OF rest tail] unfolding d1_eq by blast+
  have head: "\<forall>q\<in>set (response_positions d). rp_turn_id q = Some t \<longrightarrow>
            rp_position q \<noteq> rp_position p \<and> rp_response_id q \<noteq> rp_response_id p"
    using insert_response_position_accepts [OF d1 p(1)] p(2) by blast
  have chk: "position_check (rp_position p)"
    using d1 by (rule insert_response_position_checked)
  have fresh1: "rp_position p \<notin> set (map rp_position ps)"
  proof
    assume "rp_position p \<in> set (map rp_position ps)"
    then obtain p' where "p' \<in> set ps" "rp_position p' = rp_position p" by auto
    with IH4 p(1) show False by auto
  qed
  have fresh2: "rp_response_id p \<notin> set (map rp_response_id ps)"
  proof
    assume "rp_response_id p \<in> set (map rp_response_id ps)"
    then obtain p' where "p' \<in> set ps" "rp_response_id p' = rp_response_id p" by auto
    with IH4 p(1) show False by auto
  qed
  have c1: "distinct (map rp_position (p # ps))" using IH1 fresh1 by simp
  have c2: "distinct (map rp_response_id (p # ps))" using IH2 fresh2 by simp
  have c3: "\<forall>p\<in>set (p # ps). position_check (rp_position p)" using IH3 chk by simp
  have c4: "\<forall>p'\<in>set (p # ps). \<forall>q\<in>set (response_positions d). rp_turn_id q = Some t \<longrightarrow>
            rp_position q \<noteq> rp_position p' \<and> rp_response_id q \<noteq> rp_response_id p'"
    using IH4 head by simp
  from c1 c2 c3 c4 show ?case by blast
qed

lemma mset_insert_at: "mset (take i ys @ x # drop i ys) = add_mset x (mset ys)"
proof -
  have "mset (take i ys @ x # drop i ys) = add_mset x (mset (take i ys) + mset (drop i ys))"
    by simp
  also have "mset (take i ys) + mset (drop i ys) = mset (take i ys @ drop i ys)"
    by (simp only: mset_append)
  also have "take i ys @ drop i ys = ys"
    by (rule append_take_drop_id)
  finally show ?thesis .
qed

lemma mset_shuffle: "mset (shuffle rnd xs) = mset xs"
  by (induction xs) (simp_all add: Let_def mset_insert_at del: mset_append)

lemma length_shuffle: "length (shuffle rnd xs) = length xs"
  by (metis mset_shuffle size_mset)

lemma distinct_alphabet: "distinct (alphabet k)"
  unfolding alphabet_def by (rule distinct_take) simp

lemma alphabet_checked:
  assumes "\<forall>c\<in>set (alphabet k). position_check c"
  shows "length (alphabet k) = k"
proof (rule ccontr)
  assume "length (alphabet k) \<noteq> k"
  moreover have "length (alphabet k) = min k 26"
    by (simp add: alphabet_def)
  ultimately have k: "26 < k" by arith
  have "(4::nat) < length (alphabet k)"
    using k by (simp add: alphabet_def)
  then have "alphabet k ! 4 \<in> set (alphabet k)"
    by (rule nth_mem)
  moreover have "alphabet k ! 4 = ''ABCDEFGHIJKLMNOPQRSTUVWXYZ'' ! 4"
    unfolding alphabet_def using k by (intro nth_take) simp
  moreover have "''ABCDEFGHIJKLMNOPQRSTUVWXYZ'' ! 4 = CHR ''E''"
    by simp
  ultimately have "position_check CHR ''E''" using assms by metis
  then show False by (simp add: position_check_def)
qed

lemma assignment_rows_turn:
  "p \<in> set (assignment_rows rnd ids now t rs) \<Longrightarrow> rp_turn_id p = Some t \<and> rp_response_id p \<noteq> None"
  by (auto simp: assignment_rows_def)

lemma zip_snd_short: "length ys \<le> length xs \<Longrightarrow> map snd (zip xs ys) = ys"
  by (simp add: map_snd_zip_take min_absorb2)

lemma zip_upt_snd: "length xs \<le> n \<Longrightarrow> map snd (zip [0..<n] xs) = xs"
  by (rule zip_snd_short) simp

lemma assignment_rows_positions:
  "map rp_position (assignment_rows rnd ids now t rs) = shuffle rnd (alphabet (length rs))"
proof -
  let ?ls = "shuffle rnd (alphabet (length rs))"
  have short: "length ?ls \<le> length rs"
    by (simp add: length_shuffle alphabet_def)
  have "map rp_position (assignment_rows rnd ids now t rs) =
        map snd (map snd (zip [0..<length rs] (zip rs ?ls)))"
    by (simp add: assignment_rows_def split_def comp_def)
  also have "map snd (zip [0..<length rs] (zip rs ?ls)) = zip rs ?ls"
    by (rule zip_upt_snd) simp
  also have "map snd (zip rs ?ls) = ?ls"
    using short by (rule zip_snd_short)
  finally show ?thesis .
qed

lemma assignment_rows_responses:
  assumes "length (alphabet (length rs)) = length rs"
  shows "map rp_response_id (assignment_rows rnd ids now t rs) = map (\<lambda>r. Some (r_id r)) rs"
proof -
  let ?ls = "shuffle rnd (alphabet (length rs))"
  have len: "length ?ls = length rs" using assms by (simp add: length_shuffle)
  have "map rp_response_id (assignment_rows rnd ids now t rs) =
        map (\<lambda>r. Some (r_id r)) (map fst (map snd (zip [0..<length rs] (zip rs ?ls))))"
    by (simp add: assignment_rows_def split_def comp_def)
  also have "map snd (zip [0..<length rs] (zip rs ?ls)) = zip rs ?ls"
    by (rule zip_upt_snd) simp
  also have "map fst (zip rs ?ls) = rs"
    using len by (simp add: map_fst_zip_take)
  finally show ?thesis .
qed

lemma positions_of_append:
  "positions_of (d\<lparr>response_positions := response_positions d @ ps\<rparr>) t =
   positions_of d t @ filter (\<lambda>p. rp_turn_id p = Some t) ps"
  by (simp add: positions_of_def)

text \<open>
  C3.  When the assigner has given a turn without positions its assignment, the
  position rows of the turn are a bijection between the responses of the turn and the
  first K labels, K being the number of responses (and the size of the roster): the
  rows name the responses of the turn one for one, the responses are distinct, the
  labels of the rows are the first K labels each taken once, and these are K distinct
  labels.
\<close>

theorem assigned_positions_bijection:
  assumes ok: "assign_positions roster rnd ids now t d = (None, d')"
    and fresh: "positions_of d t = []"
  shows "map rp_response_id (positions_of d' t) = map (\<lambda>r. Some (r_id r)) (responses_of d' t) \<and>
         distinct (map r_id (responses_of d' t)) \<and>
         mset (map rp_position (positions_of d' t)) = mset (alphabet (length (responses_of d' t))) \<and>
         distinct (alphabet (length (responses_of d' t))) \<and>
         length (alphabet (length (responses_of d' t))) = length (responses_of d' t) \<and>
         length (responses_of d' t) = length roster"
proof -
  let ?rs = "responses_of d t"
  let ?rows = "assignment_rows rnd ids now t ?rs"
  let ?ls = "shuffle rnd (alphabet (length ?rs))"
  have roster: "length ?rs = length roster"
    using ok by (auto simp: assign_positions_def Let_def split: if_splits)
  have ins: "insert_response_positions d ?rows = Inr d'"
    using ok fresh roster
    by (auto simp: assign_positions_def Let_def split: if_splits sum.splits)
  have d': "d' = d\<lparr>response_positions := response_positions d @ ?rows\<rparr>"
    using ins by (rule insert_response_positions_Inr)
  have rows_t: "\<forall>p\<in>set ?rows. rp_turn_id p = Some t \<and> rp_response_id p \<noteq> None"
    using assignment_rows_turn by blast
  have resp: "responses_of d' t = ?rs"
    by (simp add: d' responses_of_def)
  have "filter (\<lambda>p. rp_turn_id p = Some t) ?rows = ?rows"
    using rows_t by (simp add: filter_id_conv)
  then have pos: "positions_of d' t = ?rows"
    unfolding d' positions_of_append fresh by simp
  note acc = insert_response_positions_accepts [OF ins rows_t]
  have labels: "map rp_position ?rows = ?ls"
    by (rule assignment_rows_positions)
  have "\<forall>c\<in>set (map rp_position ?rows). position_check c"
    using acc by simp
  then have "\<forall>c\<in>set (alphabet (length ?rs)). position_check c"
    unfolding labels by (metis mset_shuffle set_mset_mset)
  then have len: "length (alphabet (length ?rs)) = length ?rs"
    by (rule alphabet_checked)
  have ids: "map rp_response_id ?rows = map (\<lambda>r. Some (r_id r)) ?rs"
    using len by (rule assignment_rows_responses)
  have "distinct (map (\<lambda>r. Some (r_id r)) ?rs)"
    using acc unfolding ids by simp
  then have dist: "distinct (map r_id ?rs)"
    by (simp add: distinct_map inj_on_def)
  show ?thesis
    unfolding resp pos
    using ids dist labels len roster by (simp add: mset_shuffle distinct_alphabet)
qed

theorem assigned_positions_bijection_witness:
  "assign_positions scenario_roster scenario_rnd scenario_ids 0 ''t1''
     (db1\<lparr>response_positions := []\<rparr>) = (None, db1) \<and>
   positions_of (db1\<lparr>response_positions := []\<rparr>) ''t1'' = [] \<and>
   map r_id (responses_of db1 ''t1'') = [''r1'', ''r2'', ''r3'', ''r4''] \<and>
   map rp_response_id (positions_of db1 ''t1'') = [Some ''r1'', Some ''r2'', Some ''r3'', Some ''r4''] \<and>
   map rp_position (positions_of db1 ''t1'') = ''BCDA'' \<and>
   alphabet (length (responses_of db1 ''t1'')) = ''ABCD''"
proof -
  have h1: "assign_positions scenario_roster scenario_rnd scenario_ids 0 ''t1''
     (db1\<lparr>response_positions := []\<rparr>) = (None, db1)"
    by (simp add: assign_positions_def assignment_rows_def alphabet_def responses_of_def
        positions_of_def insert_response_position_def position_check_def unique_conflict_def
        references_turn_def references_response_def example_defs scenario_roster_def
        scenario_rnd_def scenario_ids_def Let_def upt_rec)
  have h2: "positions_of (db1\<lparr>response_positions := []\<rparr>) ''t1'' = []"
    by (simp add: positions_of_def)
  show ?thesis
    using h1 h2 assigned_positions_bijection [OF h1 h2]
    by (simp add: positions_of_def responses_of_def alphabet_def example_defs
        scenario_roster_def)
qed

text \<open>
  Whatever makes the assigner fail, the roster or the store, it leaves the store as it
  was: no part of an assignment is ever persisted.
\<close>

lemma assign_positions_failure_frame:
  "fst (assign_positions roster rnd ids now t d) \<noteq> None \<Longrightarrow>
   snd (assign_positions roster rnd ids now t d) = d"
  by (auto simp: assign_positions_def Let_def split: if_splits sum.splits)

text \<open>
  C8.  For a turn whose number of responses differs from the size of the roster the
  assigner answers \<open>RosterMismatch\<close> and leaves the store, and so the
  response\_positions table, as it was: no position row is created.
\<close>

theorem roster_mismatch_rejected:
  assumes "length (responses_of d t) \<noteq> length roster"
  shows "assign_positions roster rnd ids now t d = (Some RosterMismatch, d) \<and>
         response_positions (snd (assign_positions roster rnd ids now t d)) = response_positions d"
  using assms by (simp add: assign_positions_def)

theorem roster_mismatch_rejected_witness:
  "length (responses_of (db1\<lparr>response_positions := [], responses := butlast responses4\<rparr>) ''t1'') = 3 \<and>
   length config_models = 4 \<and>
   assign_positions config_models scenario_rnd scenario_ids 0 ''t1''
     (db1\<lparr>response_positions := [], responses := butlast responses4\<rparr>) =
     (Some RosterMismatch, db1\<lparr>response_positions := [], responses := butlast responses4\<rparr>) \<and>
   response_positions (snd (assign_positions config_models scenario_rnd scenario_ids 0 ''t1''
     (db1\<lparr>response_positions := [], responses := butlast responses4\<rparr>))) = []"
proof -
  have h: "length (responses_of (db1\<lparr>response_positions := [], responses := butlast responses4\<rparr>) ''t1'')
           \<noteq> length config_models"
    by (simp add: responses_of_def config_models_def example_defs)
  show ?thesis
    using roster_mismatch_rejected [OF h, of scenario_rnd scenario_ids 0]
    by (simp add: responses_of_def config_models_def example_defs)
qed

end
